theory Spec2Isabelle
  imports Main "HOL-Library.Word"
begin

section \<open>Byte slices\<close>

text \<open>
  A Go \<open>[]byte\<close> is a \<open>string\<close> here (a list of 8-bit characters).
  \<open>bytes_Split buf sep\<close> is \<open>bytes.Split(buf, []byte{sep})\<close> for a one-byte separator:
  the runs of bytes between separators, in order. The result always has at least one
  element; the empty input gives one empty line.
\<close>

fun bytes_Split :: "string \<Rightarrow> char \<Rightarrow> string list" where
  "bytes_Split [] sep = [[]]"
| "bytes_Split (c # cs) sep =
     (if c = sep then [] # bytes_Split cs sep
      else (case bytes_Split cs sep of
              [] \<Rightarrow> [[c]]
            | l # ls \<Rightarrow> (c # l) # ls))"

text \<open>\<open>bytes.Join(s, sep)\<close>: the elements of \<open>s\<close> with \<open>sep\<close> between neighbours.\<close>

fun bytes_Join :: "string list \<Rightarrow> string \<Rightarrow> string" where
  "bytes_Join [] sep = []"
| "bytes_Join [s] sep = s"
| "bytes_Join (s # t # ss) sep = s @ sep @ bytes_Join (t # ss) sep"

text \<open>\<open>bytes.HasPrefix(s, prefix)\<close>.\<close>

definition bytes_HasPrefix :: "string \<Rightarrow> string \<Rightarrow> bool" where
  "bytes_HasPrefix s pre = (length pre \<le> length s \<and> take (length pre) s = pre)"

definition newline :: char where
  "newline = CHR 0x0A"

section \<open>The stack sanitizer\<close>

text \<open>
  An index expression outside the slice makes the Go runtime panic; the panic carries the
  index and the length of the slice.
\<close>

datatype panic = IndexOutOfRange nat nat

definition logrus_prefix :: string where
  "logrus_prefix = ''github.com/sirupsen/logrus.''"

text \<open>
  The loop of \<open>chopstack\<close>, started at \<open>i\<close>: read \<open>lines[i]\<close>, stop when it does not carry
  the logrus prefix, otherwise go on two lines further. The loop has no bound of its own;
  it ends by \<open>break\<close> or by the panic of the index expression.
\<close>

function chopstack_loop :: "string list \<Rightarrow> nat \<Rightarrow> panic + nat" where
  "chopstack_loop lines i =
     (if length lines \<le> i then Inl (IndexOutOfRange i (length lines))
      else if \<not> bytes_HasPrefix (lines ! i) logrus_prefix then Inr i
      else chopstack_loop lines (i + 2))"
  by pat_completeness auto
termination
  by (relation "measure (\<lambda>(lines, i). length lines - i)") auto

declare chopstack_loop.simps [simp del]

definition chopstack :: "string \<Rightarrow> panic + string" where
  "chopstack buf =
     (let lines = bytes_Split buf newline in
      case chopstack_loop lines 3 of
        Inl p \<Rightarrow> Inl p
      | Inr i \<Rightarrow> Inr (bytes_Join (lines ! 0 # drop i lines) [newline]))"

section \<open>Severity levels\<close>

text \<open>
  \<open>logrus.Level\<close> is a \<open>uint32\<close>; the named levels are the constants the logging framework
  declares with \<open>iota\<close>, from the most severe one on.
\<close>

type_synonym Level = "32 word"

definition PanicLevel :: Level where "PanicLevel = 0"
definition FatalLevel :: Level where "FatalLevel = 1"
definition ErrorLevel :: Level where "ErrorLevel = 2"
definition WarnLevel :: Level where "WarnLevel = 3"
definition InfoLevel :: Level where "InfoLevel = 4"
definition DebugLevel :: Level where "DebugLevel = 5"
definition TraceLevel :: Level where "TraceLevel = 6"

text \<open>\<open>logging.Severity\<close> of the log collector, with its numeric codes.\<close>

datatype Severity =
  logging_Default | logging_Debug | logging_Info | logging_Notice | logging_Warning
| logging_Error | logging_Critical | logging_Alert | logging_Emergency

fun severity_code :: "Severity \<Rightarrow> nat" where
  "severity_code logging_Default = 0"
| "severity_code logging_Debug = 100"
| "severity_code logging_Info = 200"
| "severity_code logging_Notice = 300"
| "severity_code logging_Warning = 400"
| "severity_code logging_Error = 500"
| "severity_code logging_Critical = 600"
| "severity_code logging_Alert = 700"
| "severity_code logging_Emergency = 800"

definition levelToSeverity :: "Level \<Rightarrow> Severity" where
  "levelToSeverity l =
     (if l = InfoLevel then logging_Info
      else if l = WarnLevel then logging_Warning
      else if l = ErrorLevel then logging_Error
      else if l = PanicLevel \<or> l = FatalLevel then logging_Critical
      else logging_Default)"

section \<open>Log events and their fields\<close>

text \<open>
  A field of a log event holds a value of any Go type (\<open>interface{}\<close>). The model keeps
  the dynamic types the hooks distinguish: text, and everything else. Of everything else
  it keeps integers, booleans, and a value of any other type together with the text that
  the \<open>%v\<close> verb prints for it.
\<close>

datatype field_value = VString string | VInt int | VBool bool | VOther string

fun show_nat :: "nat \<Rightarrow> string" where
  "show_nat n =
     (if n < 10 then [''0123456789'' ! n]
      else show_nat (n div 10) @ [''0123456789'' ! (n mod 10)])"

declare show_nat.simps [simp del]

definition show_int :: "int \<Rightarrow> string" where
  "show_int i = (if i < 0 then CHR ''-'' # show_nat (nat (- i)) else show_nat (nat i))"

text \<open>\<open>fmt.Sprintf("%v", v)\<close>: the default text of a value.\<close>

fun fmt_Sprintf_v :: "field_value \<Rightarrow> string" where
  "fmt_Sprintf_v (VString s) = s"
| "fmt_Sprintf_v (VInt i) = show_int i"
| "fmt_Sprintf_v (VBool b) = (if b then ''true'' else ''false'')"
| "fmt_Sprintf_v (VOther s) = s"

text \<open>
  \<open>logrus.Entry\<close>, the event handed to a hook. \<open>Data\<close> is a Go map; it is kept as the
  list of its key-value pairs in the order in which \<open>range\<close> visits them, which Go
  leaves open. The keys of a map are pairwise different.
\<close>

record logrus_Entry =
  Data :: "(string \<times> field_value) list"
  Time :: int
  Level :: Level
  Message :: string

definition wf_Data :: "(string \<times> field_value) list \<Rightarrow> bool" where
  "wf_Data d = distinct (map fst d)"

text \<open>\<open>logging.Entry\<close>, what the log collector receives.\<close>

record logging_Entry =
  Timestamp :: int
  Severity :: Severity
  Payload :: string
  Labels :: "string \<rightharpoonup> string"

text \<open>\<open>errorreporting.Entry\<close>, what the error report service receives.\<close>

record errorreporting_Entry =
  Error :: string
  Stack :: string
  User :: string

section \<open>The hooks\<close>

text \<open>
  A Go slice is \<open>None\<close> when it is \<open>nil\<close> and \<open>Some xs\<close> otherwise, so that the empty
  slice that is not \<open>nil\<close> is \<open>Some []\<close>. A variadic parameter that gets no argument is
  \<open>nil\<close>.
\<close>

type_synonym 'a slice = "'a list option"

definition DefaultErrorLevels :: "Level slice" where
  "DefaultErrorLevels = Some [PanicLevel, FatalLevel, ErrorLevel]"

definition DefaultLogLevels :: "Level slice" where
  "DefaultLogLevels = Some [WarnLevel, InfoLevel]"

text \<open>
  The two collector clients belong to external packages. Each is a function that takes a
  submission and the state of the outside world \<open>'w\<close> and gives the new state, together
  with the outcome of the submission at the collector: \<open>None\<close> when it went through,
  an error otherwise. The methods \<open>Logger.Log\<close> and \<open>Client.Report\<close> are called as
  statements: the hooks never get to see that outcome.
\<close>

datatype error = SinkError string

type_synonym ('a, 'w) sink = "'a \<Rightarrow> 'w \<Rightarrow> error option \<times> 'w"

record 'w ErrorReport =
  client :: "(errorreporting_Entry, 'w) sink"
  levels :: "Level slice"

definition NewErrorReport :: "(errorreporting_Entry, 'w) sink \<Rightarrow> Level slice \<Rightarrow> 'w ErrorReport" where
  "NewErrorReport c lvls =
     (let lvls = (if lvls = None then DefaultErrorLevels else lvls) in
      \<lparr>client = c, levels = lvls\<rparr>)"

definition ErrorReport_Levels :: "'w ErrorReport \<Rightarrow> Level slice" where
  "ErrorReport_Levels h = ErrorReport.levels h"

text \<open>
  \<open>ErrorReport.Fire\<close>. \<open>runtime.Stack\<close> is the parameter \<open>rt\<close>: it reads the stack of the
  calling goroutine from the world. The buffer has 16 KiB, so at most that much of the
  trace is kept. A panic of \<open>chopstack\<close> leaves \<open>Fire\<close> before anything is reported.
\<close>

definition ErrorReport_Fire ::
  "('w \<Rightarrow> string \<times> 'w) \<Rightarrow> 'w ErrorReport \<Rightarrow> logrus_Entry \<Rightarrow> 'w \<Rightarrow> (panic + error option) \<times> 'w" where
  "ErrorReport_Fire rt h e w =
     (let (trace, w1) = rt w;
          buf = take (16 * 1024) trace in
      case chopstack buf of
        Inl p \<Rightarrow> (Inl p, w1)
      | Inr callerStack \<Rightarrow>
          (let user = (case map_of (Data e) ''user'' of
                         None \<Rightarrow> ''''
                       | Some val \<Rightarrow> (case val of
                                       VString s \<Rightarrow> s
                                     | _ \<Rightarrow> fmt_Sprintf_v val));
               (outcome, w2) = client h \<lparr>Error = Message e, Stack = callerStack, User = user\<rparr> w1
           in (Inr None, w2)))"

record 'w Log =
  logger :: "(logging_Entry, 'w) sink"
  levels :: "Level slice"

definition NewLog :: "(logging_Entry, 'w) sink \<Rightarrow> Level slice \<Rightarrow> 'w Log" where
  "NewLog l lvls =
     (let lvls = (if lvls = None then DefaultLogLevels else lvls) in
      \<lparr>logger = l, levels = lvls\<rparr>)"

definition Log_Levels :: "'w Log \<Rightarrow> Level slice" where
  "Log_Levels h = Log.levels h"

text \<open>The loop of \<open>toEntry\<close> over the fields of the event, filling the label map.\<close>

fun toEntry_labels :: "(string \<times> field_value) list \<Rightarrow> (string \<rightharpoonup> string) \<Rightarrow> (string \<rightharpoonup> string)" where
  "toEntry_labels [] labels = labels"
| "toEntry_labels ((k, v) # kvs) labels =
     toEntry_labels kvs
       (case v of
          VString s \<Rightarrow> labels(k \<mapsto> s)
        | _ \<Rightarrow> labels(k \<mapsto> fmt_Sprintf_v v))"

definition Log_toEntry :: "'w Log \<Rightarrow> logrus_Entry \<Rightarrow> logging_Entry" where
  "Log_toEntry h e =
     (let labels = toEntry_labels (Data e) Map.empty in
      \<lparr>Timestamp = Time e, Severity = levelToSeverity (Level e), Payload = Message e,
       Labels = labels\<rparr>)"

definition Log_Fire :: "'w Log \<Rightarrow> logrus_Entry \<Rightarrow> 'w \<Rightarrow> error option \<times> 'w" where
  "Log_Fire h e w =
     (let (outcome, w1) = logger h (Log_toEntry h e) w in (None, w1))"

text \<open>
  Modelled from the spec: the dispatch of the logging pipeline, which belongs to the
  logging framework and is not part of the hooks. A hook is invoked for an event only
  when the level of the event is among the levels the hook declares.
\<close>

definition accept :: "Level slice \<Rightarrow> Level \<Rightarrow> bool" where
  "accept lvls l = (case lvls of None \<Rightarrow> False | Some ls \<Rightarrow> l \<in> set ls)"

section \<open>A world that records what the hooks do to it\<close>

text \<open>
  To count the effects of a hook, the world keeps the number of stack captures and the
  submissions each collector has received, in order. The trace the runtime would print
  and the outcome each collector gives are parameters.
\<close>

record world =
  stack_captures :: nat
  log_writes :: "logging_Entry list"
  error_writes :: "errorreporting_Entry list"

definition recording_Stack :: "string \<Rightarrow> world \<Rightarrow> string \<times> world" where
  "recording_Stack trace w = (trace, w\<lparr>stack_captures := stack_captures w + 1\<rparr>)"

definition recording_Log :: "(logging_Entry \<Rightarrow> error option) \<Rightarrow> (logging_Entry, world) sink" where
  "recording_Log outcome e w = (outcome e, w\<lparr>log_writes := log_writes w @ [e]\<rparr>)"

definition recording_Report ::
  "(errorreporting_Entry \<Rightarrow> error option) \<Rightarrow> (errorreporting_Entry, world) sink" where
  "recording_Report outcome r w = (outcome r, w\<lparr>error_writes := error_writes w @ [r]\<rparr>)"

section \<open>Traces on which the scan stops\<close>

text \<open>
  The scan of \<open>chopstack\<close> visits the lines 3, 5, 7, ... of the trace. \<open>scan_stops lines\<close>
  says that one of these lines exists and does not carry the logrus prefix.
\<close>

definition scan_stops :: "string list \<Rightarrow> bool" where
  "scan_stops lines =
     (\<exists>i \<in> set [3 ..< length lines]. odd i \<and> \<not> bytes_HasPrefix (lines ! i) logrus_prefix)"

section \<open>Examples\<close>

text \<open>A collector whose every submission fails.\<close>

definition failing :: "'a \<Rightarrow> error option" where
  "failing x = Some (SinkError ''unavailable'')"

text \<open>
  A captured trace in the format the comment of \<open>chopstack\<close> shows, shortened: the header,
  the frame of the hook, one frame of the logging framework, and the frame of the caller.
\<close>

definition example_trace :: string where
  "example_trace = ''goroutine 1 [running]:\<newline>github.com/hayeah/logrus-stackdriver-hook.(*ErrorReport).Fire()\<newline> hook.go:41\<newline>github.com/sirupsen/logrus.LevelHooks.Fire()\<newline> hooks.go:28\<newline>main.main()\<newline> main.go:39\<newline>''"

text \<open>The event of the example program: an error with the field \<open>user\<close>.\<close>

definition example_event :: logrus_Entry where
  "example_event = \<lparr>Data = [(''user'', VString ''howard'')], Time = 0, Level = ErrorLevel,
     Message = ''send user err: do bar: do foo''\<rparr>"

definition empty_world :: world where
  "empty_world = \<lparr>stack_captures = 0, log_writes = [], error_writes = []\<rparr>"

section \<open>Splitting and joining lines\<close>

lemma bytes_Split_not_Nil: "bytes_Split buf sep \<noteq> []"
  by (induction buf) (auto split: list.splits)

lemma bytes_Split_no_sep: "l \<in> set (bytes_Split buf sep) \<Longrightarrow> sep \<notin> set l"
  by (induction buf arbitrary: l) (auto split: list.splits if_splits)

lemma bytes_Split_line: "sep \<notin> set l \<Longrightarrow> bytes_Split l sep = [l]"
  by (induction l) auto

lemma bytes_Split_append:
  "sep \<notin> set l \<Longrightarrow> bytes_Split (l @ sep # rest) sep = l # bytes_Split rest sep"
  by (induction l) auto

lemma bytes_Split_Join:
  "ls \<noteq> [] \<Longrightarrow> \<forall>l \<in> set ls. sep \<notin> set l \<Longrightarrow> bytes_Split (bytes_Join ls [sep]) sep = ls"
proof (induction ls "[sep]" rule: bytes_Join.induct)
  case 1
  then show ?case by simp
next
  case (2 s)
  then show ?case by (simp add: bytes_Split_line)
next
  case (3 s t ss)
  then show ?case by (simp add: bytes_Split_append)
qed

lemma chopstack_loop_bounds:
  "chopstack_loop lines i = Inr r \<Longrightarrow> i \<le> r \<and> r < length lines \<and> \<not> bytes_HasPrefix (lines ! r) logrus_prefix"
proof (induction lines i rule: chopstack_loop.induct)
  case (1 lines i)
  then show ?case
    by (subst (asm) (2) chopstack_loop.simps) (auto split: if_splits)
qed

lemma chopstack_loop_stops:
  "i + 2 * j < length lines \<Longrightarrow> \<not> bytes_HasPrefix (lines ! (i + 2 * j)) logrus_prefix \<Longrightarrow>
   \<exists>r. chopstack_loop lines i = Inr r"
proof (induction j arbitrary: i)
  case 0
  then show ?case by (subst chopstack_loop.simps) simp
next
  case (Suc j)
  from Suc.prems have "\<exists>r. chopstack_loop lines (i + 2) = Inr r"
    by (intro Suc.IH) (simp_all add: algebra_simps)
  with Suc.prems show ?case by (subst chopstack_loop.simps) auto
qed

lemma scan_stops_loop:
  assumes "scan_stops lines"
  shows "\<exists>r. chopstack_loop lines 3 = Inr r"
proof -
  from assms obtain i where i: "3 \<le> i" "i < length lines" "odd i"
    "\<not> bytes_HasPrefix (lines ! i) logrus_prefix"
    by (auto simp: scan_stops_def)
  then have "i = 3 + 2 * ((i - 3) div 2)" by presburger
  then obtain j where "i = 3 + 2 * j" ..
  with i show ?thesis using chopstack_loop_stops [of 3 j lines] by auto
qed

lemma chopstack_loop_pairs:
  assumes "\<forall>(a, b) \<in> set ps. bytes_HasPrefix a logrus_prefix"
    and "L \<noteq> []" and "\<not> bytes_HasPrefix (hd L) logrus_prefix"
  shows "chopstack_loop (pre @ concat (map (\<lambda>(a, b). [a, b]) ps) @ L) (length pre)
         = Inr (length pre + 2 * length ps)"
  using assms
proof (induction ps arbitrary: pre)
  case Nil
  then show ?case
    by (subst chopstack_loop.simps) (simp add: nth_append hd_conv_nth)
next
  case (Cons p ps)
  obtain a b where p: "p = (a, b)" by (cases p)
  from Cons.prems p have a: "bytes_HasPrefix a logrus_prefix" by simp
  have "chopstack_loop ((pre @ [a, b]) @ concat (map (\<lambda>(a, b). [a, b]) ps) @ L) (length (pre @ [a, b]))
        = Inr (length (pre @ [a, b]) + 2 * length ps)"
    using Cons.prems by (intro Cons.IH) simp_all
  then have "chopstack_loop (pre @ a # b # concat (map (\<lambda>(a, b). [a, b]) ps) @ L) (length pre + 2)
        = Inr (length pre + 2 + 2 * length ps)"
    by simp
  with a p show ?case
    by (subst chopstack_loop.simps) (simp add: nth_append)
qed

lemma scan_stops_chopstack:
  assumes "scan_stops (bytes_Split buf newline)"
  shows "\<exists>r. chopstack buf
           = Inr (bytes_Join (bytes_Split buf newline ! 0 # drop r (bytes_Split buf newline)) [newline])"
proof -
  from assms obtain r where "chopstack_loop (bytes_Split buf newline) 3 = Inr r"
    using scan_stops_loop by blast
  then have "chopstack buf
      = Inr (bytes_Join (bytes_Split buf newline ! 0 # drop r (bytes_Split buf newline)) [newline])"
    by (simp add: chopstack_def Let_def)
  then show ?thesis ..
qed

lemma example_trace_stops: "scan_stops (bytes_Split (take (16 * 1024) example_trace) newline)"
  by (simp add: example_trace_def scan_stops_def newline_def bytes_HasPrefix_def logrus_prefix_def)

section \<open>The stack sanitizer on short traces\<close>

text \<open>
  C1. A trace shorter than the fixed offset plus one frame pair has fewer than five lines.
  \<open>chopstack\<close> has no fallback for it. It returns only when the trace has exactly four
  lines and line 3 does not carry the logrus prefix, and then the result is the header
  and line 3. In every other case the index expression \<open>lines[i]\<close> is out of range and
  the routine ends in the panic of the runtime: at index 3 when the trace has fewer than
  four lines, at index 5 when line 3 carries the prefix.
\<close>

theorem chopstack_short_trace:
  assumes "length (bytes_Split buf newline) < 5"
  shows "chopstack buf =
     (let lines = bytes_Split buf newline in
      if length lines = 4 \<and> \<not> bytes_HasPrefix (lines ! 3) logrus_prefix
      then Inr (bytes_Join [lines ! 0, lines ! 3] [newline])
      else Inl (IndexOutOfRange (if length lines = 4 then 5 else 3) (length lines)))"
proof -
  let ?lines = "bytes_Split buf newline"
  consider "length ?lines < 4" | "length ?lines = 4" using assms by linarith
  then show ?thesis
  proof cases
    case 1
    then have "chopstack_loop ?lines 3 = Inl (IndexOutOfRange 3 (length ?lines))"
      by (subst chopstack_loop.simps) simp
    with 1 show ?thesis by (simp add: chopstack_def)
  next
    case 2
    have five: "chopstack_loop ?lines 5 = Inl (IndexOutOfRange 5 (length ?lines))"
      using 2 by (subst chopstack_loop.simps) simp
    have d: "drop 3 ?lines = [?lines ! 3]"
      using 2 Cons_nth_drop_Suc [of 3 ?lines] by simp
    show ?thesis
    proof (cases "bytes_HasPrefix (?lines ! 3) logrus_prefix")
      case True
      with 2 five have "chopstack_loop ?lines 3 = Inl (IndexOutOfRange 5 (length ?lines))"
        by (subst chopstack_loop.simps) simp
      with 2 True show ?thesis by (simp add: chopstack_def)
    next
      case False
      with 2 have "chopstack_loop ?lines 3 = Inr 3"
        by (subst chopstack_loop.simps) simp
      with 2 False d show ?thesis by (simp add: chopstack_def)
    qed
  qed
qed

text \<open>A trace of four lines whose line 3 is a frame of the logging framework: the scan
  goes on to index 5 and panics.\<close>

theorem chopstack_short_trace_witness:
  "length (bytes_Split ''goroutine 1 [running]:\<newline>a()\<newline> a.go:1\<newline>github.com/sirupsen/logrus.Error()'' newline) < 5
   \<and> chopstack ''goroutine 1 [running]:\<newline>a()\<newline> a.go:1\<newline>github.com/sirupsen/logrus.Error()''
       = Inl (IndexOutOfRange 5 4)"
  using chopstack_short_trace [of "''goroutine 1 [running]:\<newline>a()\<newline> a.go:1\<newline>github.com/sirupsen/logrus.Error()''"]
  by (simp add: newline_def bytes_HasPrefix_def logrus_prefix_def)

text \<open>A trace of two lines: no best-effort result, the read of line 3 panics.\<close>

theorem chopstack_short_trace_counterexample:
  "chopstack ''goroutine 1 [running]:\<newline>main.main()'' = Inl (IndexOutOfRange 3 2)"
  by (simp add: chopstack_def newline_def chopstack_loop.simps)

section \<open>The stack sanitizer skips the frames of the logging framework\<close>

text \<open>
  C2. Take a trace whose lines are a header \<open>h\<close>, the two lines \<open>f1\<close>, \<open>f2\<close> of the hook's
  own frame, then the frame pairs \<open>ps\<close>, each with a call-site line that carries the
  logrus prefix, then the lines \<open>L\<close>, the first of which does not carry it. (Lines
  contain no newline.) Then \<open>chopstack\<close> returns the header followed by \<open>L\<close>, joined with
  newlines. With no pair at all the result is the header and \<open>L\<close>.
\<close>

theorem chopstack_skips_internal_pairs:
  assumes "\<forall>l \<in> set (h # f1 # f2 # concat (map (\<lambda>(a, b). [a, b]) ps) @ L). newline \<notin> set l"
    and "\<forall>(a, b) \<in> set ps. bytes_HasPrefix a logrus_prefix"
    and "L \<noteq> []" and "\<not> bytes_HasPrefix (hd L) logrus_prefix"
  shows "chopstack (bytes_Join (h # f1 # f2 # concat (map (\<lambda>(a, b). [a, b]) ps) @ L) [newline])
         = Inr (bytes_Join (h # L) [newline])"
proof -
  let ?mid = "concat (map (\<lambda>(a, b). [a, b]) ps)"
  let ?lines = "h # f1 # f2 # ?mid @ L"
  have split: "bytes_Split (bytes_Join ?lines [newline]) newline = ?lines"
    using assms(1) by (intro bytes_Split_Join) simp_all
  have "chopstack_loop ([h, f1, f2] @ ?mid @ L) (length [h, f1, f2]) = Inr (length [h, f1, f2] + 2 * length ps)"
    using assms(2-4) by (rule chopstack_loop_pairs)
  then have loop: "chopstack_loop ?lines 3 = Inr (3 + 2 * length ps)"
    by (simp add: numeral_3_eq_3)
  have len: "length ?mid = 2 * length ps" by (induction ps) auto
  have "drop (3 + 2 * length ps) ?lines = drop (2 * length ps) (?mid @ L)"
    by (simp add: numeral_3_eq_3)
  also have "\<dots> = L" using len by simp
  finally have "drop (3 + 2 * length ps) ?lines = L" .
  then show ?thesis
    unfolding chopstack_def split Let_def loop by simp
qed

theorem chopstack_skips_internal_pairs_witness:
  "chopstack ''goroutine 1 [running]:\<newline>hook.Fire()\<newline> hook.go:41\<newline>github.com/sirupsen/logrus.Error()\<newline> exported.go:124\<newline>main.main()\<newline> main.go:39''
   = Inr ''goroutine 1 [running]:\<newline>main.main()\<newline> main.go:39''"
  using chopstack_skips_internal_pairs [of "''goroutine 1 [running]:''" "''hook.Fire()''" "'' hook.go:41''"
      "[(''github.com/sirupsen/logrus.Error()'', '' exported.go:124'')]" "[''main.main()'', '' main.go:39'']"]
  by (simp add: newline_def bytes_HasPrefix_def logrus_prefix_def)

section \<open>The header line\<close>

text \<open>
  C4. A valid trace is one on which the scan stops: one of the lines 3, 5, 7, ... exists
  and is not a frame of the logging framework. On every such trace \<open>chopstack\<close> returns,
  and the first line of what it returns is the first line of the trace.
\<close>

theorem chopstack_keeps_header:
  assumes "scan_stops (bytes_Split buf newline)"
  shows "\<exists>out. chopstack buf = Inr out \<and> hd (bytes_Split out newline) = hd (bytes_Split buf newline)"
proof -
  let ?lines = "bytes_Split buf newline"
  have ne: "?lines \<noteq> []" by (rule bytes_Split_not_Nil)
  from assms obtain r where r: "chopstack buf = Inr (bytes_Join (?lines ! 0 # drop r ?lines) [newline])"
    using scan_stops_chopstack by blast
  let ?kept = "?lines ! 0 # drop r ?lines"
  have "\<forall>l \<in> set ?kept. newline \<notin> set l"
    using ne bytes_Split_no_sep [of _ buf newline] by (auto dest: in_set_dropD)
  then have "bytes_Split (bytes_Join ?kept [newline]) newline = ?kept"
    by (intro bytes_Split_Join) simp_all
  then have "hd (bytes_Split (bytes_Join ?kept [newline]) newline) = hd ?lines"
    using ne by (simp add: hd_conv_nth)
  with r show ?thesis by simp
qed

theorem chopstack_keeps_header_witness:
  "scan_stops (bytes_Split ''goroutine 1 [running]:\<newline>hook.Fire()\<newline> hook.go:41\<newline>main.main()'' newline)
   \<and> (\<exists>out. chopstack ''goroutine 1 [running]:\<newline>hook.Fire()\<newline> hook.go:41\<newline>main.main()'' = Inr out
        \<and> hd (bytes_Split out newline) = ''goroutine 1 [running]:'')"
proof -
  have s: "scan_stops (bytes_Split ''goroutine 1 [running]:\<newline>hook.Fire()\<newline> hook.go:41\<newline>main.main()'' newline)"
    by (simp add: scan_stops_def newline_def bytes_HasPrefix_def logrus_prefix_def)
  show ?thesis
    using s chopstack_keeps_header [OF s] by (simp add: newline_def)
qed

section \<open>The severity of a level\<close>

text \<open>
  C5. \<open>levelToSeverity\<close> gives a severity for every level: info gives Info, warn gives
  Warning, error gives Error, panic and fatal give Critical, and every other value of the
  level type, debug among them, gives Default, the severity with the least code.
\<close>

theorem levelToSeverity_total:
  "levelToSeverity InfoLevel = logging_Info
   \<and> levelToSeverity WarnLevel = logging_Warning
   \<and> levelToSeverity ErrorLevel = logging_Error
   \<and> levelToSeverity PanicLevel = logging_Critical
   \<and> levelToSeverity FatalLevel = logging_Critical
   \<and> levelToSeverity DebugLevel = logging_Default
   \<and> (l \<notin> {InfoLevel, WarnLevel, ErrorLevel, PanicLevel, FatalLevel} \<longrightarrow> levelToSeverity l = logging_Default)
   \<and> severity_code logging_Default \<le> severity_code s"
  by (simp add: levelToSeverity_def InfoLevel_def WarnLevel_def ErrorLevel_def PanicLevel_def
      FatalLevel_def DebugLevel_def)

theorem levelToSeverity_total_witness:
  "TraceLevel \<notin> {InfoLevel, WarnLevel, ErrorLevel, PanicLevel, FatalLevel}
   \<and> levelToSeverity TraceLevel = logging_Default
   \<and> levelToSeverity 4000000000 = logging_Default"
  using levelToSeverity_total [of TraceLevel logging_Debug] levelToSeverity_total [of 4000000000 logging_Debug]
  by (simp add: InfoLevel_def WarnLevel_def ErrorLevel_def PanicLevel_def FatalLevel_def TraceLevel_def)

section \<open>Labels of a log entry\<close>

lemma toEntry_labels_Cons:
  "toEntry_labels ((k, v) # kvs) m = toEntry_labels kvs (m(k \<mapsto> fmt_Sprintf_v v))"
  by (cases v) simp_all

lemma toEntry_labels_lookup:
  "toEntry_labels kvs m k = (case map_of (rev kvs) k of None \<Rightarrow> m k | Some v \<Rightarrow> Some (fmt_Sprintf_v v))"
proof (induction kvs arbitrary: m)
  case Nil
  then show ?case by simp
next
  case (Cons p kvs)
  obtain k' v' where p: "p = (k', v')" by (cases p)
  show ?case
    by (simp add: p Cons.IH toEntry_labels_Cons map_add_def del: toEntry_labels.simps(2) split: option.splits)
qed

lemma toEntry_labels_distinct:
  assumes "distinct (map fst kvs)" and "(k, v) \<in> set kvs"
  shows "toEntry_labels kvs Map.empty k = Some (fmt_Sprintf_v v)"
proof -
  from assms have "map_of (rev kvs) k = Some v"
    by (intro map_of_is_SomeI) (simp_all add: rev_map [symmetric])
  then show ?thesis by (simp add: toEntry_labels_lookup)
qed

lemma toEntry_labels_dom: "dom (toEntry_labels kvs m) = dom m \<union> fst ` set kvs"
proof (rule set_eqI)
  fix x
  have "map_of (rev kvs) x = None \<longleftrightarrow> x \<notin> fst ` set kvs"
    by (simp add: map_of_eq_None_iff)
  then show "x \<in> dom (toEntry_labels kvs m) \<longleftrightarrow> x \<in> dom m \<union> fst ` set kvs"
    by (cases "map_of (rev kvs) x") (auto simp: domIff toEntry_labels_lookup)
qed

text \<open>
  C6. For every field \<open>(k, v)\<close> of an event, the entry that \<open>toEntry\<close> builds has a label
  under \<open>k\<close>, and its value is text: the field's own value when that is text, and the
  default text of the value otherwise, so that the integer 42 gives the text 42. The
  labels have the keys of the fields and no other key. \<open>toEntry\<close> has no failing case.
\<close>

theorem toEntry_labels_every_field:
  assumes "wf_Data (Data e)" and "(k, v) \<in> set (Data e)"
  shows "(\<exists>t. Labels (Log_toEntry h e) k = Some t)
    \<and> (\<forall>s. v = VString s \<longrightarrow> Labels (Log_toEntry h e) k = Some s)
    \<and> ((\<forall>s. v \<noteq> VString s) \<longrightarrow> Labels (Log_toEntry h e) k = Some (fmt_Sprintf_v v))
    \<and> dom (Labels (Log_toEntry h e)) = fst ` set (Data e)
    \<and> fmt_Sprintf_v (VInt 42) = ''42''"
proof -
  have l: "Labels (Log_toEntry h e) k = Some (fmt_Sprintf_v v)"
    using assms by (simp add: Log_toEntry_def wf_Data_def toEntry_labels_distinct)
  have d: "dom (Labels (Log_toEntry h e)) = fst ` set (Data e)"
    by (simp add: Log_toEntry_def toEntry_labels_dom)
  have n: "fmt_Sprintf_v (VInt 42) = ''42''"
    by (simp add: show_int_def show_nat.simps)
  from l d n show ?thesis by auto
qed

theorem toEntry_labels_every_field_witness:
  "wf_Data [(''user'', VString ''howard''), (''attempt'', VInt 42)]
   \<and> Labels (Log_toEntry (NewLog (recording_Log failing) None)
        \<lparr>Data = [(''user'', VString ''howard''), (''attempt'', VInt 42)], Time = 0,
         Level = InfoLevel, Message = ''m''\<rparr>) ''attempt'' = Some ''42''"
  using toEntry_labels_every_field [of "\<lparr>Data = [(''user'', VString ''howard''), (''attempt'', VInt 42)], Time = 0,
        Level = InfoLevel, Message = ''m''\<rparr>" "''attempt''" "VInt 42" "NewLog (recording_Log failing) None"]
  by (simp add: wf_Data_def show_int_def show_nat.simps)

section \<open>The levels of a hook\<close>

text \<open>
  C7. Built without levels, the error report hook has the levels panic, fatal and error,
  and the log hook has warn and info. Built with levels, each hook has the levels it was
  given. \<open>Levels\<close> returns what the constructor stored.
\<close>

theorem constructors_levels:
  "ErrorReport_Levels (NewErrorReport c None) = Some [PanicLevel, FatalLevel, ErrorLevel]
   \<and> Log_Levels (NewLog l None) = Some [WarnLevel, InfoLevel]
   \<and> ErrorReport_Levels (NewErrorReport c (Some ls)) = Some ls
   \<and> Log_Levels (NewLog l (Some ls)) = Some ls"
  by (simp add: ErrorReport_Levels_def NewErrorReport_def Log_Levels_def NewLog_def
      DefaultErrorLevels_def DefaultLogLevels_def)

text \<open>
  C10. The defaults stand in for a \<open>nil\<close> slice only. Built with an empty slice that is
  not \<open>nil\<close>, a hook has no levels, and no event is dispatched to it, whatever its level;
  built with \<open>nil\<close>, it accepts the default levels.
\<close>

theorem empty_levels_no_default:
  "Log_Levels (NewLog l (Some [])) = Some []
   \<and> \<not> accept (Log_Levels (NewLog l (Some []))) lv
   \<and> ErrorReport_Levels (NewErrorReport c (Some [])) = Some []
   \<and> \<not> accept (ErrorReport_Levels (NewErrorReport c (Some []))) lv
   \<and> accept (Log_Levels (NewLog l None)) WarnLevel
   \<and> accept (ErrorReport_Levels (NewErrorReport c None)) ErrorLevel"
  by (simp add: ErrorReport_Levels_def NewErrorReport_def Log_Levels_def NewLog_def
      DefaultErrorLevels_def DefaultLogLevels_def accept_def)

section \<open>What Fire returns\<close>

lemma ErrorReport_Fire_recording:
  assumes "chopstack (take (16 * 1024) trace) = Inr st"
  shows "ErrorReport_Fire (recording_Stack trace) (NewErrorReport (recording_Report outcome) lvls) e w
     = (Inr None,
        w\<lparr>stack_captures := stack_captures w + 1,
          error_writes := error_writes w @
            [\<lparr>Error = Message e, Stack = st,
              User = (case map_of (Data e) ''user'' of None \<Rightarrow> [] | Some v \<Rightarrow> fmt_Sprintf_v v)\<rparr>]\<rparr>)"
proof -
  have u: "(case val of VString s \<Rightarrow> s | _ \<Rightarrow> fmt_Sprintf_v val) = fmt_Sprintf_v val" for val
    by (cases val) simp_all
  show ?thesis
    using assms
    by (simp add: ErrorReport_Fire_def recording_Stack_def recording_Report_def NewErrorReport_def u
        Let_def split: option.splits)
qed

text \<open>
  C3. \<open>Fire\<close> never returns an error, and it does not hand on, look at or act on the
  outcome of the submission. \<open>Log.Fire\<close> is one call of the collector on the entry of
  \<open>toEntry\<close>, followed by \<open>nil\<close>: in the recording world it adds that one entry and
  nothing else, whatever the collector answers. \<open>ErrorReport.Fire\<close> never returns an
  error value; in the recording world it captures the stack once and then either ends in
  the panic of \<open>chopstack\<close> with nothing submitted, or submits one report and returns
  \<open>nil\<close>, whatever the collector answers. No submission is repeated.
\<close>

theorem Fire_returns_nil:
  "Log_Fire h e w = (None, snd (logger h (Log_toEntry h e) w))
   \<and> Log_Fire (NewLog (recording_Log outcome) lvls) e w1
       = (None, w1\<lparr>log_writes := log_writes w1 @ [Log_toEntry (NewLog (recording_Log outcome) lvls) e]\<rparr>)
   \<and> fst (ErrorReport_Fire rt h' e w') \<noteq> Inr (Some err)
   \<and> ErrorReport_Fire (recording_Stack trace) (NewErrorReport (recording_Report outcome') lvls') e w1
       = (case chopstack (take (16 * 1024) trace) of
            Inl p \<Rightarrow> (Inl p, w1\<lparr>stack_captures := stack_captures w1 + 1\<rparr>)
          | Inr st \<Rightarrow>
              (Inr None,
               w1\<lparr>stack_captures := stack_captures w1 + 1,
                  error_writes := error_writes w1 @
                    [\<lparr>Error = Message e, Stack = st,
                      User = (case map_of (Data e) ''user'' of None \<Rightarrow> [] | Some v \<Rightarrow> fmt_Sprintf_v v)\<rparr>]\<rparr>))"
proof -
  have a: "Log_Fire h e w = (None, snd (logger h (Log_toEntry h e) w))"
    by (simp add: Log_Fire_def split: prod.splits)
  have b: "Log_Fire (NewLog (recording_Log outcome) lvls) e w1
       = (None, w1\<lparr>log_writes := log_writes w1 @ [Log_toEntry (NewLog (recording_Log outcome) lvls) e]\<rparr>)"
    by (simp add: Log_Fire_def recording_Log_def NewLog_def)
  have c: "fst (ErrorReport_Fire rt h' e w') \<noteq> Inr (Some err)"
    by (simp add: ErrorReport_Fire_def Let_def split: prod.splits sum.splits)
  have d: "ErrorReport_Fire (recording_Stack trace) (NewErrorReport (recording_Report outcome') lvls') e w1
       = (case chopstack (take (16 * 1024) trace) of
            Inl p \<Rightarrow> (Inl p, w1\<lparr>stack_captures := stack_captures w1 + 1\<rparr>)
          | Inr st \<Rightarrow>
              (Inr None,
               w1\<lparr>stack_captures := stack_captures w1 + 1,
                  error_writes := error_writes w1 @
                    [\<lparr>Error = Message e, Stack = st,
                      User = (case map_of (Data e) ''user'' of None \<Rightarrow> [] | Some v \<Rightarrow> fmt_Sprintf_v v)\<rparr>]\<rparr>))"
  proof (cases "chopstack (take (16 * 1024) trace)")
    case (Inl p)
    then show ?thesis
      by (simp add: ErrorReport_Fire_def recording_Stack_def)
  next
    case (Inr st)
    then show ?thesis
      by (simp add: ErrorReport_Fire_recording)
  qed
  from a b c d show ?thesis by (intro conjI)
qed

text \<open>The collector rejects the entry of the event, and \<open>Log.Fire\<close> still returns \<open>nil\<close>.\<close>

theorem Fire_error_counterexample:
  "fst (recording_Log failing
          (Log_toEntry (NewLog (recording_Log failing) None)
             \<lparr>Data = [], Time = 0, Level = WarnLevel, Message = ''a warning will be sent''\<rparr>)
          \<lparr>stack_captures = 0, log_writes = [], error_writes = []\<rparr>)
     = Some (SinkError ''unavailable'')
   \<and> fst (Log_Fire (NewLog (recording_Log failing) None)
          \<lparr>Data = [], Time = 0, Level = WarnLevel, Message = ''a warning will be sent''\<rparr>
          \<lparr>stack_captures = 0, log_writes = [], error_writes = []\<rparr>)
     = None"
  by (simp add: Log_Fire_def recording_Log_def failing_def NewLog_def)

section \<open>The report and the effects of Fire\<close>

text \<open>
  C8. Let the captured trace be one on which the scan stops. Then \<open>ErrorReport.Fire\<close>
  returns \<open>nil\<close> and hands one report \<open>r\<close> to the collector. The error text of \<open>r\<close> is the
  message of the event. When the event has a field \<open>user\<close>, the user of \<open>r\<close> is the value
  of the field if that is text, and its default text otherwise; when the event has no
  such field, the user of \<open>r\<close> is empty.
\<close>

theorem ErrorReport_Fire_user:
  assumes "scan_stops (bytes_Split (take (16 * 1024) trace) newline)"
  shows "\<exists>r. fst (ErrorReport_Fire (recording_Stack trace) (NewErrorReport (recording_Report outcome) lvls) e w) = Inr None
     \<and> error_writes (snd (ErrorReport_Fire (recording_Stack trace) (NewErrorReport (recording_Report outcome) lvls) e w))
         = error_writes w @ [r]
     \<and> Error r = Message e
     \<and> (\<forall>s. map_of (Data e) ''user'' = Some (VString s) \<longrightarrow> User r = s)
     \<and> (\<forall>v. map_of (Data e) ''user'' = Some v \<longrightarrow> User r = fmt_Sprintf_v v)
     \<and> (map_of (Data e) ''user'' = None \<longrightarrow> User r = [])"
proof -
  from assms obtain st where "chopstack (take (16 * 1024) trace) = Inr st"
    using scan_stops_chopstack by blast
  from ErrorReport_Fire_recording [OF this, of outcome lvls e w] show ?thesis
    by auto
qed

text \<open>The event of the example program: the user is \<open>howard\<close>, the error text the message.\<close>

theorem ErrorReport_Fire_user_witness:
  "scan_stops (bytes_Split (take (16 * 1024) example_trace) newline)
   \<and> (\<exists>r. fst (ErrorReport_Fire (recording_Stack example_trace) (NewErrorReport (recording_Report failing) None)
              example_event empty_world) = Inr None
        \<and> error_writes (snd (ErrorReport_Fire (recording_Stack example_trace)
              (NewErrorReport (recording_Report failing) None) example_event empty_world)) = [r]
        \<and> Error r = ''send user err: do bar: do foo''
        \<and> User r = ''howard'')"
proof -
  have s: "scan_stops (bytes_Split (take (16 * 1024) example_trace) newline)"
    by (rule example_trace_stops)
  from ErrorReport_Fire_user [OF s, of failing None example_event empty_world]
  obtain r where "fst (ErrorReport_Fire (recording_Stack example_trace) (NewErrorReport (recording_Report failing) None)
              example_event empty_world) = Inr None"
    and "error_writes (snd (ErrorReport_Fire (recording_Stack example_trace)
              (NewErrorReport (recording_Report failing) None) example_event empty_world)) = error_writes empty_world @ [r]"
    and "Error r = Message example_event"
    and "\<forall>s. map_of (Data example_event) ''user'' = Some (VString s) \<longrightarrow> User r = s"
    by blast
  then show ?thesis using s
    by (intro conjI exI [of _ r]) (simp_all add: example_event_def empty_world_def)
qed

text \<open>
  C9. \<open>Log.Fire\<close> adds one entry, the one \<open>toEntry\<close> builds, to what the log collector
  has received, and changes nothing else in the world. On a captured trace on which the
  scan stops, \<open>ErrorReport.Fire\<close> captures the stack once and adds one report to what the
  error collector has received, and changes nothing else. Neither hook keeps anything
  back, and neither submits a second time, whatever the collector answers.
\<close>

theorem Fire_effects_once:
  assumes "scan_stops (bytes_Split (take (16 * 1024) trace) newline)"
  shows "snd (Log_Fire (NewLog (recording_Log outcome) lvls) e w)
           = w\<lparr>log_writes := log_writes w @ [Log_toEntry (NewLog (recording_Log outcome) lvls) e]\<rparr>
     \<and> (\<exists>r. snd (ErrorReport_Fire (recording_Stack trace) (NewErrorReport (recording_Report outcome') lvls') e w)
           = w\<lparr>stack_captures := stack_captures w + 1, error_writes := error_writes w @ [r]\<rparr>)"
proof -
  from assms obtain st where "chopstack (take (16 * 1024) trace) = Inr st"
    using scan_stops_chopstack by blast
  from ErrorReport_Fire_recording [OF this, of outcome' lvls' e w]
  have "\<exists>r. snd (ErrorReport_Fire (recording_Stack trace) (NewErrorReport (recording_Report outcome') lvls') e w)
           = w\<lparr>stack_captures := stack_captures w + 1, error_writes := error_writes w @ [r]\<rparr>"
    by (intro exI) simp
  moreover have "snd (Log_Fire (NewLog (recording_Log outcome) lvls) e w)
           = w\<lparr>log_writes := log_writes w @ [Log_toEntry (NewLog (recording_Log outcome) lvls) e]\<rparr>"
    by (simp add: Log_Fire_def recording_Log_def NewLog_def)
  ultimately show ?thesis by simp
qed

theorem Fire_effects_once_witness:
  "scan_stops (bytes_Split (take (16 * 1024) example_trace) newline)
   \<and> log_writes (snd (Log_Fire (NewLog (recording_Log failing) None) example_event empty_world))
       = [Log_toEntry (NewLog (recording_Log failing) None) example_event]
   \<and> stack_captures (snd (ErrorReport_Fire (recording_Stack example_trace)
        (NewErrorReport (recording_Report failing) None) example_event empty_world)) = 1
   \<and> length (error_writes (snd (ErrorReport_Fire (recording_Stack example_trace)
        (NewErrorReport (recording_Report failing) None) example_event empty_world))) = 1"
proof -
  have s: "scan_stops (bytes_Split (take (16 * 1024) example_trace) newline)"
    by (rule example_trace_stops)
  from Fire_effects_once [OF s, of failing None example_event empty_world failing None]
  show ?thesis using s
    by (auto simp: empty_world_def)
qed

end
